theory Spec2Isabelle
  imports Main "HOL-Library.Sublist"
begin

section \<open>The Harmony parser of app/parsers/harmony.py\<close>

text \<open>
  The module wraps the external \<open>openai_harmony\<close> library: an encoding object
  (\<open>encode\<close>, \<open>parse_messages_from_completion_tokens\<close>) and a stateful
  \<open>StreamableParser\<close> (\<open>process\<close>). The library is not part of the module, so it is a
  parameter of every definition below: a record of functions over an arbitrary token
  type \<open>'tok\<close> and an arbitrary decoder state \<open>'ps\<close>. Each library call may raise; a
  raise is the value \<open>Inl e\<close>, and \<open>process\<close> also hands back the decoder state it
  leaves behind.
\<close>

subsection \<open>Data\<close>

datatype ToolParserState = NORMAL | FOUND_ARGUMENTS | END_STREAM

text \<open>The values of the enumeration \<open>ChannelType\<close>.\<close>

definition ANALYSIS :: string where
  "ANALYSIS = ''analysis''"

definition COMMENTARY :: string where
  "COMMENTARY = ''commentary''"

definition FINAL :: string where
  "FINAL = ''final''"

datatype error = EngineError string | IndexError

text \<open>
  What the module reads off the \<open>StreamableParser\<close> after \<open>process\<close>: the three
  properties \<open>last_content_delta\<close>, \<open>current_channel\<close>, \<open>current_recipient\<close>, each of
  which may be \<open>None\<close>.
\<close>

record StreamText =
  last_content_delta :: "string option"
  current_channel :: "string option"
  current_recipient :: "string option"

text \<open>
  A message of \<open>parse_messages_from_completion_tokens\<close>: its channel, its recipient
  (absent or \<open>None\<close> are both \<open>None\<close> here) and the \<open>text\<close> of each block of its
  \<open>content\<close> list.
\<close>

record Message =
  channel :: "string option"
  recipient :: "string option"
  content_texts :: "string list"

record ('tok, 'ps) Harmony =
  encode :: "string \<Rightarrow> error + 'tok list"
  parse_messages_from_completion_tokens :: "'tok list \<Rightarrow> error + Message list"
  process :: "'ps \<Rightarrow> 'tok \<Rightarrow> 'ps \<times> (error + StreamText)"
  new_parser :: "'ps"

text \<open>The mutable fields of a \<open>HarmonyParser\<close> instance.\<close>

record 'ps HarmonyParser =
  parser :: "'ps"
  state :: ToolParserState
  arguments_buffer :: "string list"
  function_name_buffer :: string

record ToolCall =
  name :: string
  arguments :: string

text \<open>
  The result dictionary. Its \<open>tool_calls\<close> entry is a list in \<open>parse\<close> and a list or
  \<open>None\<close> in \<open>parse_streaming\<close>, hence the type parameter.
\<close>

record 'tc Result =
  content :: "string option"
  tool_calls :: "'tc"
  reasoning_content :: "string option"

definition end_tool_chunk :: string where
  "end_tool_chunk = ''<|call|>''"

definition init :: "('tok, 'ps) Harmony \<Rightarrow> 'ps HarmonyParser" where
  "init H = \<lparr>parser = new_parser H, state = NORMAL, arguments_buffer = [],
     function_name_buffer = []\<rparr>"

subsection \<open>Python string operations\<close>

text \<open>\<open>sub in text\<close>.\<close>

primrec str_in :: "string \<Rightarrow> string \<Rightarrow> bool" where
  "str_in sub [] = (sub = [])"
| "str_in sub (c # cs) = (prefix sub (c # cs) \<or> str_in sub cs)"

text \<open>\<open>text.find(sub)\<close>: the index of the first occurrence, or \<open>-1\<close>.\<close>

primrec str_find :: "string \<Rightarrow> string \<Rightarrow> int" where
  "str_find [] sub = (if sub = [] then 0 else - 1)"
| "str_find (c # cs) sub =
     (if prefix sub (c # cs) then 0
      else (let i = str_find cs sub in if i < 0 then - 1 else i + 1))"

text \<open>\<open>text[:n]\<close>, a negative \<open>n\<close> counting from the end.\<close>

definition slice_to :: "string \<Rightarrow> int \<Rightarrow> string" where
  "slice_to text n =
     (if n < 0 then take (nat (int (length text) + n)) text else take (nat n) text)"

text \<open>\<open>s.replace(old, new)\<close>: every occurrence, left to right, without overlap.\<close>

function str_replace :: "string \<Rightarrow> string \<Rightarrow> string \<Rightarrow> string" where
  "str_replace [] old new = (if old = [] then new else [])"
| "str_replace (c # cs) old new =
     (if old = [] then new @ c # str_replace cs old new
      else if prefix old (c # cs) then new @ str_replace (drop (length old) (c # cs)) old new
      else c # str_replace cs old new)"
  by pat_completeness auto
termination
  by (relation "measure (\<lambda>(s, old, new). length s)") auto

text \<open>\<open>s or None\<close> for a string \<open>s\<close>.\<close>

definition str_or_none :: "string \<Rightarrow> string option" where
  "str_or_none s = (if s = [] then None else Some s)"

text \<open>\<open>x or ''\<close> for an optional string \<open>x\<close>.\<close>

definition or_empty :: "string option \<Rightarrow> string" where
  "or_empty x = (case x of None \<Rightarrow> [] | Some s \<Rightarrow> s)"

subsection \<open>The operations\<close>

text \<open>
  Lines 40-42 and 95-98, the same in both methods: cut the text right after the first
  end marker, and say whether there was one.
\<close>

definition truncate_at_marker :: "string \<Rightarrow> string \<times> bool" where
  "truncate_at_marker text =
     (if str_in end_tool_chunk text
      then (slice_to text (str_find text end_tool_chunk + int (length end_tool_chunk)), True)
      else (text, False))"

text \<open>
  The local \<open>is_tool_call\<close> of both methods, the recipient already defaulted to the
  empty string.
\<close>

definition is_tool_call :: "string option \<Rightarrow> string \<Rightarrow> bool" where
  "is_tool_call chan recip =
     (chan = Some COMMENTARY \<or> (recip \<noteq> [] \<and> str_in ''functions.'' recip))"

text \<open>\<open>message.content[0].text\<close>, an \<open>IndexError\<close> on an empty content list.\<close>

definition first_text :: "Message \<Rightarrow> error + string" where
  "first_text message =
     (case content_texts message of [] \<Rightarrow> Inl IndexError | t # ts \<Rightarrow> Inr t)"

text \<open>The body of the loop of \<open>parse\<close> (lines 52-69).\<close>

definition parse_message ::
  "ToolCall list Result \<Rightarrow> Message \<Rightarrow> error + ToolCall list Result" where
  "parse_message result message =
     (let recip = or_empty (recipient message) in
      if is_tool_call (channel message) recip \<and> recip \<noteq> [] then
        (case first_text message of
           Inl e \<Rightarrow> Inl e
         | Inr t \<Rightarrow> Inr (result\<lparr>tool_calls := tool_calls result @
               [\<lparr>name = str_replace recip ''functions.'' [], arguments = t\<rparr>]\<rparr>))
      else if channel message = Some ANALYSIS then
        (case first_text message of
           Inl e \<Rightarrow> Inl e
         | Inr t \<Rightarrow> Inr (result\<lparr>reasoning_content := Some t\<rparr>))
      else if channel message = Some FINAL then
        (case first_text message of
           Inl e \<Rightarrow> Inl e
         | Inr t \<Rightarrow> Inr (result\<lparr>content := Some t\<rparr>))
      else Inr result)"

primrec parse_messages :: "Message list \<Rightarrow> ToolCall list Result \<Rightarrow> error + ToolCall list Result" where
  "parse_messages [] result = Inr result"
| "parse_messages (message # rest) result =
     (case parse_message result message of
        Inl e \<Rightarrow> Inl e
      | Inr result' \<Rightarrow> parse_messages rest result')"

text \<open>
  \<open>parse\<close> returns its result (or the exception) together with the instance as it
  leaves it.
\<close>

definition parse ::
  "('tok, 'ps) Harmony \<Rightarrow> 'ps HarmonyParser \<Rightarrow> string
     \<Rightarrow> (error + ToolCall list Result) \<times> 'ps HarmonyParser" where
  "parse H self text =
     (let text' = fst (truncate_at_marker text);
          result = \<lparr>content = None, tool_calls = [], reasoning_content = None\<rparr>
      in case encode H text' of
           Inl e \<Rightarrow> (Inl e, self)
         | Inr tokens \<Rightarrow>
             (case parse_messages_from_completion_tokens H tokens of
                Inl e \<Rightarrow> (Inl e, self)
              | Inr parsed_messages \<Rightarrow> (parse_messages parsed_messages result, self)))"

definition build_result ::
  "string list \<Rightarrow> ToolCall list option \<Rightarrow> string list \<Rightarrow> ToolCall list option Result" where
  "build_result reasoning_contents tcs contents =
     \<lparr>content = str_or_none (concat contents), tool_calls = tcs,
      reasoning_content = str_or_none (concat reasoning_contents)\<rparr>"

text \<open>
  The body of the token loop of \<open>parse_streaming\<close> (lines 103-133). The two local lists
  are passed along; the instance is returned also when \<open>process\<close> raises, since what
  was written to it before stays written.
\<close>

definition process_token ::
  "('tok, 'ps) Harmony \<Rightarrow> 'ps HarmonyParser \<Rightarrow> string list \<Rightarrow> string list \<Rightarrow> 'tok
     \<Rightarrow> (error + string list \<times> string list) \<times> 'ps HarmonyParser" where
  "process_token H self reasoning_contents contents chunk_token =
     (case process H (parser self) chunk_token of
        (p, Inl e) \<Rightarrow> (Inl e, self\<lparr>parser := p\<rparr>)
      | (p, Inr stream_text) \<Rightarrow>
          (let self1 = self\<lparr>parser := p\<rparr>;
               delta = or_empty (last_content_delta stream_text)
           in if delta = [] then (Inr (reasoning_contents, contents), self1)
              else if state self1 = FOUND_ARGUMENTS then
                (Inr (reasoning_contents, contents),
                 self1\<lparr>arguments_buffer := arguments_buffer self1 @ [delta]\<rparr>)
              else
                (let chan = current_channel stream_text;
                     recip = or_empty (current_recipient stream_text)
                 in if is_tool_call chan recip then
                      (Inr (reasoning_contents, contents),
                       self1\<lparr>state := FOUND_ARGUMENTS,
                             arguments_buffer := arguments_buffer self1 @ [delta],
                             function_name_buffer := str_replace recip ''functions.'' []\<rparr>)
                    else if chan = Some ANALYSIS then
                      (Inr (reasoning_contents @ [delta], contents), self1)
                    else if chan = Some FINAL then
                      (Inr (reasoning_contents, contents @ [delta]), self1)
                    else (Inr (reasoning_contents, contents), self1))))"

primrec process_tokens ::
  "('tok, 'ps) Harmony \<Rightarrow> 'tok list \<Rightarrow> 'ps HarmonyParser \<Rightarrow> string list \<Rightarrow> string list
     \<Rightarrow> (error + string list \<times> string list) \<times> 'ps HarmonyParser" where
  "process_tokens H [] self reasoning_contents contents =
     (Inr (reasoning_contents, contents), self)"
| "process_tokens H (chunk_token # rest) self reasoning_contents contents =
     (case process_token H self reasoning_contents contents chunk_token of
        (Inl e, self') \<Rightarrow> (Inl e, self')
      | (Inr (reasoning_contents', contents'), self') \<Rightarrow>
          process_tokens H rest self' reasoning_contents' contents')"

type_synonym stream_return = "error + (ToolCall list option Result option \<times> bool)"

definition parse_streaming ::
  "('tok, 'ps) Harmony \<Rightarrow> 'ps HarmonyParser \<Rightarrow> string
     \<Rightarrow> stream_return \<times> 'ps HarmonyParser" where
  "parse_streaming H self chunk =
     (if state self = END_STREAM then (Inr (None, True), self)
      else
        (let (chunk', end_stream_state) = truncate_at_marker chunk
         in case encode H chunk' of
              Inl e \<Rightarrow> (Inl e, self)
            | Inr chunk_tokens \<Rightarrow>
                (case process_tokens H chunk_tokens self [] [] of
                   (Inl e, self') \<Rightarrow> (Inl e, self')
                 | (Inr (reasoning_contents, contents), self') \<Rightarrow>
                     if end_stream_state then
                       (Inr (Some (build_result reasoning_contents
                                (Some [\<lparr>name = function_name_buffer self',
                                        arguments = concat (arguments_buffer self')\<rparr>])
                                contents), True),
                        self'\<lparr>arguments_buffer := [], function_name_buffer := [],
                              state := END_STREAM\<rparr>)
                     else
                       (Inr (Some (build_result reasoning_contents None contents), False),
                        self'))))"

definition handle_parse_streaming_end ::
  "('tok, 'ps) Harmony \<Rightarrow> 'ps HarmonyParser \<Rightarrow> stream_return \<times> 'ps HarmonyParser" where
  "handle_parse_streaming_end H self =
     (if state self = FOUND_ARGUMENTS then parse_streaming H self end_tool_chunk
      else (Inr (None, False), self))"

subsection \<open>Sessions\<close>

text \<open>
  A streaming session is any sequence of calls of the two streaming methods on one
  instance. Each call returns or raises; the instance goes on to the next call either
  way.
\<close>

datatype call = ParseStreaming string | HandleParseStreamingEnd

fun do_call ::
  "('tok, 'ps) Harmony \<Rightarrow> 'ps HarmonyParser \<Rightarrow> call \<Rightarrow> stream_return \<times> 'ps HarmonyParser" where
  "do_call H self (ParseStreaming chunk) = parse_streaming H self chunk"
| "do_call H self HandleParseStreamingEnd = handle_parse_streaming_end H self"

primrec session ::
  "('tok, 'ps) Harmony \<Rightarrow> 'ps HarmonyParser \<Rightarrow> call list
     \<Rightarrow> stream_return list \<times> 'ps HarmonyParser" where
  "session H self [] = ([], self)"
| "session H self (c # cs) =
     (case do_call H self c of
        (r, self') \<Rightarrow> (case session H self' cs of (rs, self'') \<Rightarrow> (r # rs, self'')))"

text \<open>The tool calls one streaming call hands to its caller.\<close>

definition emitted :: "stream_return \<Rightarrow> ToolCall list" where
  "emitted r =
     (case r of
        Inl e \<Rightarrow> []
      | Inr (None, fin) \<Rightarrow> []
      | Inr (Some res, fin) \<Rightarrow> (case tool_calls res of None \<Rightarrow> [] | Some tcs \<Rightarrow> tcs))"

text \<open>
  The chunk a call feeds to \<open>parse_streaming\<close>, and whether the call reaches the end
  marker: a chunk that contains it on a stream not yet ended, or a flush while
  arguments are being captured.
\<close>

fun call_chunk :: "call \<Rightarrow> string" where
  "call_chunk (ParseStreaming chunk) = chunk"
| "call_chunk HandleParseStreamingEnd = end_tool_chunk"

fun marker_detected :: "'ps HarmonyParser \<Rightarrow> call \<Rightarrow> bool" where
  "marker_detected self (ParseStreaming chunk) =
     (state self \<noteq> END_STREAM \<and> str_in end_tool_chunk chunk)"
| "marker_detected self HandleParseStreamingEnd = (state self = FOUND_ARGUMENTS)"

text \<open>Outside \<open>FOUND_ARGUMENTS\<close> both buffers are empty.\<close>

definition settled :: "'ps HarmonyParser \<Rightarrow> bool" where
  "settled self =
     (state self = FOUND_ARGUMENTS
      \<or> (arguments_buffer self = [] \<and> function_name_buffer self = []))"

subsection \<open>What the decoder reports\<close>

text \<open>
  The non-empty deltas the decoder produces for a token sequence from a given decoder
  state, each with the channel and the recipient reported along with it, up to the
  first token it rejects. The parser plays no part in this.
\<close>

primrec reports ::
  "('tok, 'ps) Harmony \<Rightarrow> 'ps \<Rightarrow> 'tok list \<Rightarrow> (string \<times> string option \<times> string) list" where
  "reports H p [] = []"
| "reports H p (t # ts) =
     (case process H p t of
        (p', Inl e) \<Rightarrow> []
      | (p', Inr st) \<Rightarrow>
          (if or_empty (last_content_delta st) = [] then []
           else [(or_empty (last_content_delta st), current_channel st,
                  or_empty (current_recipient st))])
          @ reports H p' ts)"

definition deltas :: "('tok, 'ps) Harmony \<Rightarrow> 'ps \<Rightarrow> 'tok list \<Rightarrow> string list" where
  "deltas H p ts = map fst (reports H p ts)"

definition deltas_on ::
  "string \<Rightarrow> ('tok, 'ps) Harmony \<Rightarrow> 'ps \<Rightarrow> 'tok list \<Rightarrow> string list" where
  "deltas_on chan H p ts =
     map fst (filter (\<lambda>(d, c, r). c = Some chan) (reports H p ts))"

subsection \<open>Messages that name a tool\<close>

text \<open>
  A decoded message with a non-empty recipient that is on the commentary channel or
  whose recipient contains \<open>functions.\<close>; and the entry such a message stands for: the
  recipient without \<open>functions.\<close> as the name, the first content text as the arguments.
\<close>

definition names_tool :: "Message \<Rightarrow> bool" where
  "names_tool m =
     (or_empty (recipient m) \<noteq> []
      \<and> (channel m = Some COMMENTARY \<or> str_in ''functions.'' (or_empty (recipient m))))"

definition entry_of :: "ToolCall \<Rightarrow> Message \<Rightarrow> bool" where
  "entry_of tc m =
     (name tc = str_replace (or_empty (recipient m)) ''functions.'' []
      \<and> first_text m = Inr (arguments tc))"

subsection \<open>A small decoder to run the parser on\<close>

text \<open>
  Tokens are characters. The decoder state is the current channel, the current
  recipient and whether the decoder is inside a \<open><...>\<close> special token. \<open>A\<close>, \<open>F\<close>,
  \<open>C\<close> and \<open>T\<close> open an analysis message, a final message, a commentary message without
  recipient (the format's preamble) and a commentary message to
  \<open>functions.get_weather\<close>; \<open>X\<close> is rejected; every other character outside a special
  token is content.
\<close>

type_synonym demo_state = "string option \<times> string option \<times> bool"

definition quiet :: "string option \<Rightarrow> string option \<Rightarrow> error + StreamText" where
  "quiet chan recip =
     Inr \<lparr>last_content_delta = None, current_channel = chan, current_recipient = recip\<rparr>"

definition demo_process :: "demo_state \<Rightarrow> char \<Rightarrow> demo_state \<times> (error + StreamText)" where
  "demo_process p c =
     (case p of (chan, recip, special) \<Rightarrow>
        if c = CHR ''<'' then ((chan, recip, True), quiet chan recip)
        else if c = CHR ''>'' then ((chan, recip, False), quiet chan recip)
        else if special then (p, quiet chan recip)
        else if c = CHR ''A'' then ((Some ANALYSIS, None, False), quiet (Some ANALYSIS) None)
        else if c = CHR ''F'' then ((Some FINAL, None, False), quiet (Some FINAL) None)
        else if c = CHR ''C'' then
          ((Some COMMENTARY, None, False), quiet (Some COMMENTARY) None)
        else if c = CHR ''T'' then
          ((Some COMMENTARY, Some ''functions.get_weather'', False),
           quiet (Some COMMENTARY) (Some ''functions.get_weather''))
        else if c = CHR ''X'' then (p, Inl (EngineError ''unexpected token''))
        else (p, Inr \<lparr>last_content_delta = Some [c], current_channel = chan,
                      current_recipient = recip\<rparr>))"

definition demo_message :: "char \<Rightarrow> Message list" where
  "demo_message c =
     (if c = CHR ''A'' then
        [\<lparr>channel = Some ANALYSIS, recipient = None, content_texts = [''thinking'']\<rparr>]
      else if c = CHR ''F'' then
        [\<lparr>channel = Some FINAL, recipient = None, content_texts = [''hello'']\<rparr>]
      else if c = CHR ''C'' then
        [\<lparr>channel = Some COMMENTARY, recipient = None, content_texts = [''one moment'']\<rparr>]
      else if c = CHR ''T'' then
        [\<lparr>channel = Some COMMENTARY, recipient = Some ''functions.get_weather'',
          content_texts = [''{}'']\<rparr>]
      else [])"

definition demo :: "(char, demo_state) Harmony" where
  "demo = \<lparr>encode = Inr, parse_messages_from_completion_tokens =
              (\<lambda>tokens. Inr (concat (map demo_message tokens))),
            process = demo_process, new_parser = (None, None, False)\<rparr>"

text \<open>The instance after the chunk \<open>T{\<close>: a tool call is being captured.\<close>

definition demo_capturing :: "demo_state HarmonyParser" where
  "demo_capturing = snd (parse_streaming demo (init demo) ''T{'')"

text \<open>
  A stricter decoder: the same, except that \<open>E\<close> closes the current message and every
  token after that is rejected, as the library rejects whatever does not start a new
  message. \<open>strict_capturing\<close> is the instance after the chunk \<open>T{}E\<close> (a tool call is
  being captured and its message is closed), \<open>strict_normal\<close> the instance after the
  chunk \<open>FhiE\<close> (a final message, closed; no tool call so far).
\<close>

type_synonym strict_state = "demo_state \<times> bool"

definition strict_process ::
  "strict_state \<Rightarrow> char \<Rightarrow> strict_state \<times> (error + StreamText)" where
  "strict_process p c =
     (case p of (q, closed) \<Rightarrow>
        if closed then (p, Inl (EngineError ''unexpected token''))
        else if c = CHR ''E'' then ((q, True), quiet (fst q) (fst (snd q)))
        else (case demo_process q c of (q', r) \<Rightarrow> ((q', False), r)))"

definition strict_demo :: "(char, strict_state) Harmony" where
  "strict_demo = \<lparr>encode = Inr, parse_messages_from_completion_tokens =
                     (\<lambda>tokens. Inr (concat (map demo_message tokens))),
                   process = strict_process, new_parser = ((None, None, False), False)\<rparr>"

definition strict_capturing :: "strict_state HarmonyParser" where
  "strict_capturing = snd (session strict_demo (init strict_demo) [ParseStreaming ''T{}E''])"

definition strict_normal :: "strict_state HarmonyParser" where
  "strict_normal = snd (session strict_demo (init strict_demo) [ParseStreaming ''FhiE''])"

section \<open>Properties\<close>

subsection \<open>After the end of the stream\<close>

lemma session_finished:
  "state self = END_STREAM \<Longrightarrow>
     session H self (map ParseStreaming chunks)
       = (replicate (length chunks) (Inr (None, True)), self)"
  by (induction chunks) (simp_all add: parse_streaming_def)

text \<open>
  C3. Once the state is \<open>END_STREAM\<close>, \<open>parse_streaming\<close> returns \<open>(None, True)\<close> for
  every chunk and leaves the whole instance as it was; so does any number of further
  calls.
\<close>

theorem parse_streaming_after_end:
  assumes "state self = END_STREAM"
  shows "parse_streaming H self chunk = (Inr (None, True), self)
     \<and> session H self (map ParseStreaming chunks)
         = (replicate (length chunks) (Inr (None, True)), self)"
  using assms session_finished [of self H chunks] by (simp add: parse_streaming_def)

theorem parse_streaming_after_end_witness:
  "state (snd (parse_streaming demo (init demo) ''Tab<|call|>'')) = END_STREAM
     \<and> parse_streaming demo (snd (parse_streaming demo (init demo) ''Tab<|call|>'')) ''Fhello''
         = (Inr (None, True), snd (parse_streaming demo (init demo) ''Tab<|call|>''))
     \<and> session demo (snd (parse_streaming demo (init demo) ''Tab<|call|>''))
           (map ParseStreaming [''a'', ''b<|call|>''])
         = (replicate (length [''a'', ''b<|call|>'']) (Inr (None, True)),
            snd (parse_streaming demo (init demo) ''Tab<|call|>''))"
proof -
  have h: "state (snd (parse_streaming demo (init demo) ''Tab<|call|>'')) = END_STREAM"
    by code_simp
  show ?thesis
    using h parse_streaming_after_end [OF h, of demo "''Fhello''" "[''a'', ''b<|call|>'']"]
    by blast
qed

subsection \<open>The one-shot parser and the streaming state\<close>

text \<open>
  C10. \<open>parse\<close> leaves the instance as it found it, whatever the text and whether it
  returns or raises: the state, the argument buffer and the function name (and the
  decoder) are the same afterwards.
\<close>

theorem parse_keeps_instance:
  "snd (parse H self text) = self
     \<and> state (snd (parse H self text)) = state self
     \<and> arguments_buffer (snd (parse H self text)) = arguments_buffer self
     \<and> function_name_buffer (snd (parse H self text)) = function_name_buffer self"
  by (simp add: parse_def Let_def split: sum.splits)

subsection \<open>Cutting at the end marker\<close>

lemma str_in_self_append: "str_in m (m @ post)"
proof (cases "m @ post")
  case Nil
  then show ?thesis by simp
next
  case (Cons a list)
  have "prefix m (m @ post)" by simp
  then have "prefix m (a # list)" unfolding Cons .
  then show ?thesis unfolding Cons by simp
qed

lemma str_in_append: "str_in m (pre @ m @ post)"
  by (induction pre) (auto simp: str_in_self_append)

lemma str_in_length: "str_in m s \<Longrightarrow> length m \<le> length s"
  by (induction s) (auto dest: prefix_length_le)

text \<open>
  An occurrence of \<open>m\<close> that starts inside \<open>pre\<close> lies within \<open>pre\<close> followed by all of
  \<open>m\<close> but its last character.
\<close>

lemma prefix_within:
  assumes "prefix m (pre @ m @ post)" "m \<noteq> []" "pre \<noteq> []"
  shows "prefix m (pre @ butlast m)"
proof -
  have len: "length m \<le> length (pre @ butlast m)"
    using assms(2,3) by (cases pre) auto
  have "m = take (length m) (pre @ m @ post)"
    using assms(1) by (metis append_eq_conv_conj prefix_def)
  also have "\<dots> = take (length m) (pre @ butlast m)"
    using len assms(2) by (cases m rule: rev_cases) auto
  finally have "m = take (length m) (pre @ butlast m)" .
  then show ?thesis
    by (metis take_is_prefix)
qed

lemma str_find_first:
  "m \<noteq> [] \<Longrightarrow> \<not> str_in m (pre @ butlast m)
     \<Longrightarrow> str_find (pre @ m @ post) m = int (length pre)"
proof (induction pre)
  case Nil
  obtain a list where al: "m @ post = a # list"
    using Nil.prems(1) by (cases "m @ post") auto
  have "prefix m (m @ post)" by simp
  then have "prefix m (a # list)" unfolding al .
  then show ?case using al by simp
next
  case (Cons c pre)
  have "\<not> prefix m ((c # pre) @ butlast m)" using Cons.prems(2) by simp
  then have np: "\<not> prefix m ((c # pre) @ m @ post)"
    using prefix_within [of m "c # pre" post] Cons.prems(1) by blast
  have "\<not> str_in m (pre @ butlast m)" using Cons.prems(2) by simp
  then have "str_find (pre @ m @ post) m = int (length pre)"
    using Cons.IH Cons.prems(1) by blast
  then show ?case using np by (simp add: Let_def)
qed

lemma first_occurrence:
  "m \<noteq> [] \<Longrightarrow> str_in m s
     \<Longrightarrow> \<exists>pre post. s = pre @ m @ post \<and> \<not> str_in m (pre @ butlast m)"
proof (induction s)
  case Nil
  then show ?case by simp
next
  case (Cons c cs)
  show ?case
  proof (cases "prefix m (c # cs)")
    case True
    then obtain post where p: "c # cs = [] @ m @ post" by (auto simp: prefix_def)
    have "\<not> str_in m (butlast m)"
      using str_in_length [of m "butlast m"] Cons.prems(1) by (cases m rule: rev_cases) auto
    then show ?thesis using p by (metis append_Nil)
  next
    case False
    then have "str_in m cs" using Cons.prems(2) by simp
    then obtain pre post where pp: "cs = pre @ m @ post" "\<not> str_in m (pre @ butlast m)"
      using Cons.IH Cons.prems(1) by blast
    have "prefix (c # pre @ butlast m) (c # pre @ m @ post)"
      by (simp add: prefixeq_butlast)
    then have "\<not> prefix m (c # pre @ butlast m)"
      using False pp(1) by (metis prefix_order.trans)
    then have "\<not> str_in m ((c # pre) @ butlast m)" using pp(2) by simp
    moreover have "c # cs = (c # pre) @ m @ post" using pp(1) by simp
    ultimately show ?thesis by blast
  qed
qed

lemma end_tool_chunk_not_empty: "end_tool_chunk \<noteq> []"
  by (simp add: end_tool_chunk_def)

lemma truncate_at_first_marker:
  assumes "\<not> str_in end_tool_chunk (pre @ butlast end_tool_chunk)"
  shows "truncate_at_marker (pre @ end_tool_chunk @ post) = (pre @ end_tool_chunk, True)"
proof -
  have "str_find (pre @ end_tool_chunk @ post) end_tool_chunk = int (length pre)"
    using str_find_first [OF end_tool_chunk_not_empty assms] .
  then show ?thesis
    by (simp add: truncate_at_marker_def str_in_append slice_to_def)
qed

text \<open>
  C2. A text or chunk \<open>C\<close> that contains the end marker splits as \<open>pre @ end_tool_chunk @
  post\<close> with no occurrence of the marker starting inside \<open>pre\<close>, and both \<open>parse\<close> and
  \<open>parse_streaming\<close> do on \<open>C\<close> exactly what they do on \<open>pre @ end_tool_chunk\<close>: the same
  return value or exception and the same instance afterwards, so nothing of \<open>post\<close> is
  classified, buffered or returned.
\<close>

theorem marker_truncation:
  assumes "str_in end_tool_chunk C"
  shows "\<exists>pre post. C = pre @ end_tool_chunk @ post
       \<and> \<not> str_in end_tool_chunk (pre @ butlast end_tool_chunk)
       \<and> parse H self C = parse H self (pre @ end_tool_chunk)
       \<and> parse_streaming H self C = parse_streaming H self (pre @ end_tool_chunk)"
proof -
  obtain pre post where pp: "C = pre @ end_tool_chunk @ post"
      "\<not> str_in end_tool_chunk (pre @ butlast end_tool_chunk)"
    using first_occurrence [OF end_tool_chunk_not_empty assms] by blast
  have a: "truncate_at_marker C = (pre @ end_tool_chunk, True)"
    using truncate_at_first_marker [OF pp(2)] pp(1) by simp
  have b: "truncate_at_marker (pre @ end_tool_chunk) = (pre @ end_tool_chunk, True)"
    using truncate_at_first_marker [OF pp(2), of "[]"] by simp
  have "parse H self C = parse H self (pre @ end_tool_chunk)"
    unfolding parse_def a b by simp
  moreover have "parse_streaming H self C = parse_streaming H self (pre @ end_tool_chunk)"
    unfolding parse_streaming_def a b by simp
  ultimately show ?thesis using pp by blast
qed

theorem marker_truncation_witness:
  "str_in end_tool_chunk ''Tab<|call|>Fzz''
     \<and> (\<exists>pre post. ''Tab<|call|>Fzz'' = pre @ end_tool_chunk @ post
          \<and> \<not> str_in end_tool_chunk (pre @ butlast end_tool_chunk)
          \<and> parse demo (init demo) ''Tab<|call|>Fzz''
              = parse demo (init demo) (pre @ end_tool_chunk)
          \<and> parse_streaming demo (init demo) ''Tab<|call|>Fzz''
              = parse_streaming demo (init demo) (pre @ end_tool_chunk))"
proof -
  have h: "str_in end_tool_chunk ''Tab<|call|>Fzz''" by code_simp
  show ?thesis using h marker_truncation [OF h, of demo "init demo"] by simp
qed


subsection \<open>One step of the token loop, one call\<close>

lemma process_token_outcome:
  assumes "process_token H self rcs cs t = (r, self')"
  obtains
    (raise) p e where "process H (parser self) t = (p, Inl e)"
      "r = Inl e" "self' = self\<lparr>parser := p\<rparr>"
  | (skip) p st where "process H (parser self) t = (p, Inr st)"
      "or_empty (last_content_delta st) = []"
      "r = Inr (rcs, cs)" "self' = self\<lparr>parser := p\<rparr>"
  | (capture) p st where "process H (parser self) t = (p, Inr st)"
      "or_empty (last_content_delta st) \<noteq> []" "state self = FOUND_ARGUMENTS"
      "r = Inr (rcs, cs)"
      "self' = self\<lparr>parser := p,
         arguments_buffer := arguments_buffer self @ [or_empty (last_content_delta st)]\<rparr>"
  | (tool) p st where "process H (parser self) t = (p, Inr st)"
      "or_empty (last_content_delta st) \<noteq> []" "state self \<noteq> FOUND_ARGUMENTS"
      "is_tool_call (current_channel st) (or_empty (current_recipient st))"
      "r = Inr (rcs, cs)"
      "self' = self\<lparr>parser := p, state := FOUND_ARGUMENTS,
         arguments_buffer := arguments_buffer self @ [or_empty (last_content_delta st)],
         function_name_buffer :=
           str_replace (or_empty (current_recipient st)) ''functions.'' []\<rparr>"
  | (analysis) p st where "process H (parser self) t = (p, Inr st)"
      "or_empty (last_content_delta st) \<noteq> []" "state self \<noteq> FOUND_ARGUMENTS"
      "\<not> is_tool_call (current_channel st) (or_empty (current_recipient st))"
      "current_channel st = Some ANALYSIS"
      "r = Inr (rcs @ [or_empty (last_content_delta st)], cs)" "self' = self\<lparr>parser := p\<rparr>"
  | (final) p st where "process H (parser self) t = (p, Inr st)"
      "or_empty (last_content_delta st) \<noteq> []" "state self \<noteq> FOUND_ARGUMENTS"
      "\<not> is_tool_call (current_channel st) (or_empty (current_recipient st))"
      "current_channel st \<noteq> Some ANALYSIS" "current_channel st = Some FINAL"
      "r = Inr (rcs, cs @ [or_empty (last_content_delta st)])" "self' = self\<lparr>parser := p\<rparr>"
  | (other) p st where "process H (parser self) t = (p, Inr st)"
      "or_empty (last_content_delta st) \<noteq> []" "state self \<noteq> FOUND_ARGUMENTS"
      "\<not> is_tool_call (current_channel st) (or_empty (current_recipient st))"
      "current_channel st \<noteq> Some ANALYSIS" "current_channel st \<noteq> Some FINAL"
      "r = Inr (rcs, cs)" "self' = self\<lparr>parser := p\<rparr>"
proof -
  obtain p o1 where po: "process H (parser self) t = (p, o1)"
    by (cases "process H (parser self) t")
  show thesis
  proof (cases o1)
    case (Inl e)
    then show thesis using assms po raise by (simp add: process_token_def)
  next
    case (Inr st)
    then show thesis
      using assms po skip [of p st] capture [of p st] tool [of p st] analysis [of p st]
        final [of p st] other [of p st]
      by (simp add: process_token_def Let_def split: if_splits)
  qed
qed

lemma truncate_at_marker_snd: "snd (truncate_at_marker chunk) = str_in end_tool_chunk chunk"
  by (simp add: truncate_at_marker_def)

lemma truncate_at_marker_none:
  "\<not> str_in end_tool_chunk chunk \<Longrightarrow> fst (truncate_at_marker chunk) = chunk"
  by (simp add: truncate_at_marker_def)

lemma parse_streaming_outcome:
  assumes "parse_streaming H self chunk = (r, self')"
  obtains
    (ended) "state self = END_STREAM" "r = Inr (None, True)" "self' = self"
  | (encode_raise) e where "state self \<noteq> END_STREAM"
      "encode H (fst (truncate_at_marker chunk)) = Inl e" "r = Inl e" "self' = self"
  | (process_raise) ts e where "state self \<noteq> END_STREAM"
      "encode H (fst (truncate_at_marker chunk)) = Inr ts"
      "process_tokens H ts self [] [] = (Inl e, self')" "r = Inl e"
  | (flush) ts rcs cs self1 where "state self \<noteq> END_STREAM"
      "str_in end_tool_chunk chunk"
      "encode H (fst (truncate_at_marker chunk)) = Inr ts"
      "process_tokens H ts self [] [] = (Inr (rcs, cs), self1)"
      "r = Inr (Some (build_result rcs
             (Some [\<lparr>name = function_name_buffer self1,
                     arguments = concat (arguments_buffer self1)\<rparr>]) cs), True)"
      "self' = self1\<lparr>arguments_buffer := [], function_name_buffer := [],
                    state := END_STREAM\<rparr>"
  | (partial) ts rcs cs where "state self \<noteq> END_STREAM"
      "\<not> str_in end_tool_chunk chunk"
      "encode H (fst (truncate_at_marker chunk)) = Inr ts"
      "process_tokens H ts self [] [] = (Inr (rcs, cs), self')"
      "r = Inr (Some (build_result rcs None cs), False)"
proof (cases "state self = END_STREAM")
  case True
  then have "r = Inr (None, True)" "self' = self"
    using assms by (simp_all add: parse_streaming_def)
  then show thesis using True ended by blast
next
  case False
  obtain chunk' fin where tr: "truncate_at_marker chunk = (chunk', fin)"
    by (cases "truncate_at_marker chunk")
  have fin: "fin = str_in end_tool_chunk chunk"
    using tr truncate_at_marker_snd [of chunk] by simp
  have c': "fst (truncate_at_marker chunk) = chunk'" using tr by simp
  show thesis
  proof (cases "encode H chunk'")
    case (Inl e)
    then have "r = Inl e" "self' = self"
      using assms False tr by (simp_all add: parse_streaming_def)
    then show thesis using False Inl c' encode_raise by blast
  next
    case (Inr ts)
    obtain r1 s1 where loop: "process_tokens H ts self [] [] = (r1, s1)"
      by (cases "process_tokens H ts self [] []")
    show thesis
    proof (cases r1)
      case (Inl e)
      then have "r = Inl e" "self' = s1"
        using assms False tr Inr loop by (simp_all add: parse_streaming_def)
      then show thesis using False Inr Inl c' loop process_raise by blast
    next
      case x: (Inr x)
      obtain rcs cs where xx: "x = (rcs, cs)" by (cases x)
      have loop': "process_tokens H ts self [] [] = (Inr (rcs, cs), s1)"
        using loop x xx by simp
      show thesis
      proof (cases fin)
        case True
        then have "r = Inr (Some (build_result rcs
             (Some [\<lparr>name = function_name_buffer s1,
                     arguments = concat (arguments_buffer s1)\<rparr>]) cs), True)"
          "self' = s1\<lparr>arguments_buffer := [], function_name_buffer := [],
                    state := END_STREAM\<rparr>"
          using assms False tr Inr loop' by (simp_all add: parse_streaming_def)
        then show thesis using False True fin Inr c' loop' flush by blast
      next
        case nf: False
        then have "r = Inr (Some (build_result rcs None cs), False)" "self' = s1"
          using assms False tr Inr loop' by (simp_all add: parse_streaming_def)
        then show thesis using False nf fin Inr c' loop' partial by blast
      qed
    qed
  qed
qed

subsection \<open>The buffers between calls\<close>

lemma process_token_settled:
  "settled self \<Longrightarrow> process_token H self rcs cs t = (r, self') \<Longrightarrow> settled self'"
  by (erule process_token_outcome) (auto simp: settled_def)

lemma process_tokens_settled:
  "settled self \<Longrightarrow> process_tokens H ts self rcs cs = (r, self') \<Longrightarrow> settled self'"
proof (induction ts arbitrary: self rcs cs)
  case Nil
  then show ?case by simp
next
  case (Cons t ts)
  obtain r1 s1 where step: "process_token H self rcs cs t = (r1, s1)"
    by (cases "process_token H self rcs cs t")
  have s1: "settled s1" using process_token_settled [OF Cons.prems(1) step] .
  show ?case
  proof (cases r1)
    case (Inl e)
    then show ?thesis using Cons.prems(2) step s1 by simp
  next
    case (Inr x)
    obtain rcs1 cs1 where x: "x = (rcs1, cs1)" by (cases x)
    have "process_tokens H ts s1 rcs1 cs1 = (r, self')"
      using Cons.prems(2) step Inr x by simp
    then show ?thesis using Cons.IH s1 by blast
  qed
qed

lemma parse_streaming_settled:
  "settled self \<Longrightarrow> parse_streaming H self chunk = (r, self') \<Longrightarrow> settled self'"
proof -
  assume a: "settled self" and b: "parse_streaming H self chunk = (r, self')"
  show ?thesis
  proof (cases "state self = END_STREAM")
    case True
    then show ?thesis using a b by (simp add: parse_streaming_def)
  next
    case False
    obtain chunk' fin where tr: "truncate_at_marker chunk = (chunk', fin)"
      by (cases "truncate_at_marker chunk")
    show ?thesis
    proof (cases "encode H chunk'")
      case (Inl e)
      then show ?thesis using a b False tr by (simp add: parse_streaming_def)
    next
      case (Inr ts)
      obtain r1 s1 where loop: "process_tokens H ts self [] [] = (r1, s1)"
        by (cases "process_tokens H ts self [] []")
      have s1: "settled s1" using process_tokens_settled [OF a loop] .
      show ?thesis
        using b False tr Inr loop s1
        by (auto simp: parse_streaming_def settled_def split: sum.splits if_splits)
    qed
  qed
qed

lemma do_call_settled:
  "settled self \<Longrightarrow> do_call H self c = (r, self') \<Longrightarrow> settled self'"
  by (cases c) (auto simp: handle_parse_streaming_end_def dest: parse_streaming_settled
      split: if_splits)

lemma session_Cons_snd:
  "snd (session H self (c # calls)) = snd (session H (snd (do_call H self c)) calls)"
  by (simp split: prod.splits)

lemma session_settled:
  "settled self \<Longrightarrow> settled (snd (session H self calls))"
proof (induction calls arbitrary: self)
  case Nil
  then show ?case by simp
next
  case (Cons c calls)
  obtain r s1 where step: "do_call H self c = (r, s1)" by (cases "do_call H self c")
  have "settled s1" using do_call_settled [OF Cons.prems step] .
  then have "settled (snd (session H s1 calls))" using Cons.IH by blast
  then show ?case using step by (simp only: session_Cons_snd snd_conv)
qed

lemma init_settled: "settled (init H)"
  by (simp add: settled_def init_def)

text \<open>
  C6, as the code has it. After any sequence of \<open>parse_streaming\<close> and
  \<open>handle_parse_streaming_end\<close> calls on a fresh instance, returning or raising: a
  non-empty function name is only there in state \<open>FOUND_ARGUMENTS\<close>, and the argument
  buffer is empty in state \<open>NORMAL\<close>.
\<close>

theorem reachable_buffers:
  "(function_name_buffer (snd (session H (init H) calls)) \<noteq> []
       \<longrightarrow> state (snd (session H (init H) calls)) = FOUND_ARGUMENTS)
     \<and> (state (snd (session H (init H) calls)) = NORMAL
       \<longrightarrow> arguments_buffer (snd (session H (init H) calls)) = [])"
proof -
  have "settled (init H)" by (rule init_settled)
  then have "settled (snd (session H (init H) calls))" by (rule session_settled)
  then show ?thesis by (auto simp: settled_def)
qed

theorem reachable_buffers_witness:
  "function_name_buffer (snd (session demo (init demo) [ParseStreaming ''T{''])) \<noteq> []
     \<and> state (snd (session demo (init demo) [ParseStreaming ''T{''])) = FOUND_ARGUMENTS
     \<and> state (snd (session demo (init demo) [ParseStreaming ''Aab''])) = NORMAL
     \<and> arguments_buffer (snd (session demo (init demo) [ParseStreaming ''Aab''])) = []"
proof -
  have h1: "function_name_buffer (snd (session demo (init demo) [ParseStreaming ''T{''])) \<noteq> []"
    by code_simp
  have h2: "state (snd (session demo (init demo) [ParseStreaming ''Aab''])) = NORMAL"
    by code_simp
  show ?thesis
    using h1 h2 reachable_buffers [where H = demo and calls = "[ParseStreaming ''T{'']"]
      reachable_buffers [where H = demo and calls = "[ParseStreaming ''Aab'']"] by blast
qed

text \<open>
  C6 as stated also asks for a non-empty function name whenever the state is
  \<open>FOUND_ARGUMENTS\<close>. A commentary delta with no recipient starts the capture with the
  empty name: after the one chunk \<open>Cab\<close> the state is \<open>FOUND_ARGUMENTS\<close> and the name
  is empty.
\<close>

theorem name_iff_capturing_counterexample:
  "\<not> (function_name_buffer (snd (session demo (init demo) [ParseStreaming ''Cab''])) \<noteq> []
        \<longleftrightarrow> state (snd (session demo (init demo) [ParseStreaming ''Cab''])) = FOUND_ARGUMENTS)"
  by code_simp

subsection \<open>At most one tool call in a session\<close>

lemma emitted_simps:
  "emitted (Inl e) = []"
  "emitted (Inr (None, fin)) = []"
  "emitted (Inr (Some (build_result rcs tcs cs), fin)) = (case tcs of None \<Rightarrow> [] | Some l \<Rightarrow> l)"
  by (simp_all add: emitted_def build_result_def)

lemma handle_parse_streaming_end_capturing:
  "state self = FOUND_ARGUMENTS \<Longrightarrow>
     handle_parse_streaming_end H self = parse_streaming H self end_tool_chunk"
  by (simp add: handle_parse_streaming_end_def)

lemma str_in_refl: "str_in m m"
  using str_in_self_append [of m "[]"] by simp

text \<open>Every call is a \<open>parse_streaming\<close> of its chunk, or returns \<open>(None, False)\<close> untouched.\<close>

lemma do_call_as_parse_streaming:
  "((c = HandleParseStreamingEnd \<longrightarrow> state self = FOUND_ARGUMENTS)
        \<and> do_call H self c = parse_streaming H self (call_chunk c))
     \<or> (c = HandleParseStreamingEnd \<and> state self \<noteq> FOUND_ARGUMENTS
          \<and> do_call H self c = (Inr (None, False), self))"
  by (cases c) (simp_all add: handle_parse_streaming_end_def)

lemma do_call_emitted:
  assumes "do_call H self c = (r, self')"
  shows "(emitted r \<noteq> [] \<longleftrightarrow> marker_detected self c \<and> (\<exists>x. r = Inr x))
     \<and> (emitted r \<noteq> [] \<longrightarrow>
          (\<exists>ts rcs cs self1.
              encode H (fst (truncate_at_marker (call_chunk c))) = Inr ts
            \<and> process_tokens H ts self [] [] = (Inr (rcs, cs), self1)
            \<and> emitted r = [\<lparr>name = function_name_buffer self1,
                              arguments = concat (arguments_buffer self1)\<rparr>]
            \<and> (\<exists>res. r = Inr (Some res, True))
            \<and> arguments_buffer self' = [] \<and> function_name_buffer self' = []
            \<and> state self' = END_STREAM))"
proof -
  consider (stream) "do_call H self c = parse_streaming H self (call_chunk c)"
      "c = HandleParseStreamingEnd \<longrightarrow> state self = FOUND_ARGUMENTS"
    | (idle) "c = HandleParseStreamingEnd" "state self \<noteq> FOUND_ARGUMENTS"
      "do_call H self c = (Inr (None, False), self)"
    using do_call_as_parse_streaming [where H = H and self = self and c = c] by blast
  then show ?thesis
  proof cases
    case stream
    have md: "marker_detected self c
        \<longleftrightarrow> state self \<noteq> END_STREAM \<and> str_in end_tool_chunk (call_chunk c)"
      using stream(2) by (cases c) (auto simp: str_in_refl)
    have ps: "parse_streaming H self (call_chunk c) = (r, self')"
      using assms stream(1) by simp
    from ps show ?thesis
    proof (cases rule: parse_streaming_outcome)
      case ended
      then show ?thesis using md by (simp add: emitted_simps)
    next
      case (encode_raise e)
      then show ?thesis by (simp add: emitted_simps)
    next
      case (process_raise ts e)
      then show ?thesis by (simp add: emitted_simps)
    next
      case (flush ts rcs cs self1)
      then show ?thesis using md by (auto simp: emitted_simps)
    next
      case (partial ts rcs cs)
      then show ?thesis using md by (simp add: emitted_simps)
    qed
  next
    case idle
    then have "r = Inr (None, False)" using assms by simp
    then have "emitted r = []" by (simp add: emitted_simps)
    then show ?thesis using idle(1,2) by simp
  qed
qed

lemma do_call_ended:
  "state self = END_STREAM \<Longrightarrow> do_call H self c = (r, self')
     \<Longrightarrow> emitted r = [] \<and> state self' = END_STREAM"
  by (cases c) (auto simp: parse_streaming_def handle_parse_streaming_end_def emitted_simps)

lemma session_ended:
  "state self = END_STREAM \<Longrightarrow> concat (map emitted (fst (session H self calls))) = []"
proof (induction calls arbitrary: self)
  case Nil
  then show ?case by simp
next
  case (Cons c calls)
  obtain r s1 where step: "do_call H self c = (r, s1)" by (cases "do_call H self c")
  obtain rs s2 where rest: "session H s1 calls = (rs, s2)" by (cases "session H s1 calls")
  have "emitted r = []" "state s1 = END_STREAM"
    using do_call_ended [OF Cons.prems step] by simp_all
  then show ?case using Cons.IH [where self = s1] step rest by simp
qed

lemma session_emits_at_most_once:
  "length (concat (map emitted (fst (session H self calls)))) \<le> 1"
proof (induction calls arbitrary: self)
  case Nil
  then show ?case by simp
next
  case (Cons c calls)
  obtain r s1 where step: "do_call H self c = (r, s1)" by (cases "do_call H self c")
  obtain rs s2 where rest: "session H s1 calls = (rs, s2)" by (cases "session H s1 calls")
  show ?case
  proof (cases "emitted r = []")
    case True
    then show ?thesis using Cons.IH [where self = s1] step rest by simp
  next
    case False
    then have "length (emitted r) = 1" "state s1 = END_STREAM"
      using do_call_emitted [OF step] by auto
    then show ?thesis using session_ended [where self = s1 and H = H and calls = calls] step rest by simp
  qed
qed

text \<open>
  C1. Over any sequence of streaming calls from any instance, the tool calls handed
  out number at most one. A call hands one out exactly when it reaches the end marker
  (a chunk with the marker on a stream not yet ended, or a flush during capture) and
  returns; the entry then is the function name and the joined argument buffer as the
  token loop of that call left them, the completion flag is true, and afterwards both
  buffers are empty and the state is \<open>END_STREAM\<close>.
\<close>

theorem one_tool_call_per_session:
  assumes "do_call H self c = (r, self')"
  shows "length (concat (map emitted (fst (session H self0 calls)))) \<le> 1
     \<and> (emitted r \<noteq> [] \<longleftrightarrow> marker_detected self c \<and> (\<exists>x. r = Inr x))
     \<and> (emitted r \<noteq> [] \<longrightarrow>
          (\<exists>ts rcs cs self1.
              encode H (fst (truncate_at_marker (call_chunk c))) = Inr ts
            \<and> process_tokens H ts self [] [] = (Inr (rcs, cs), self1)
            \<and> emitted r = [\<lparr>name = function_name_buffer self1,
                              arguments = concat (arguments_buffer self1)\<rparr>]
            \<and> (\<exists>res. r = Inr (Some res, True))
            \<and> arguments_buffer self' = [] \<and> function_name_buffer self' = []
            \<and> state self' = END_STREAM))"
  using do_call_emitted [OF assms] session_emits_at_most_once [where H = H and self = self0 and calls = calls] by blast

theorem one_tool_call_per_session_witness:
  "do_call demo (snd (parse_streaming demo (init demo) ''T{'')) (ParseStreaming ''}<|call|>zz'')
     = (Inr (Some \<lparr>content = None,
                   tool_calls = Some [\<lparr>name = ''get_weather'', arguments = ''{}''\<rparr>],
                   reasoning_content = None\<rparr>, True),
        \<lparr>parser = (Some ''commentary'', Some ''functions.get_weather'', False),
         state = END_STREAM, arguments_buffer = [], function_name_buffer = []\<rparr>)
   \<and> emitted (Inr (Some \<lparr>content = None,
                   tool_calls = Some [\<lparr>name = ''get_weather'', arguments = ''{}''\<rparr>],
                   reasoning_content = None\<rparr>, True)) \<noteq> []
   \<and> marker_detected (snd (parse_streaming demo (init demo) ''T{''))
         (ParseStreaming ''}<|call|>zz'')
   \<and> length (concat (map emitted (fst (session demo (init demo)
         [ParseStreaming ''T{'', ParseStreaming ''}<|call|>zz'', ParseStreaming ''T{<|call|>'',
          HandleParseStreamingEnd])))) \<le> 1"
proof -
  have h: "do_call demo (snd (parse_streaming demo (init demo) ''T{''))
        (ParseStreaming ''}<|call|>zz'')
     = (Inr (Some \<lparr>content = None,
                   tool_calls = Some [\<lparr>name = ''get_weather'', arguments = ''{}''\<rparr>],
                   reasoning_content = None\<rparr>, True),
        \<lparr>parser = (Some ''commentary'', Some ''functions.get_weather'', False),
         state = END_STREAM, arguments_buffer = [], function_name_buffer = []\<rparr>)"
    by code_simp
  have e: "emitted (Inr (Some \<lparr>content = None,
                   tool_calls = Some [\<lparr>name = ''get_weather'', arguments = ''{}''\<rparr>],
                   reasoning_content = None\<rparr>, True)) \<noteq> []"
    by code_simp
  show ?thesis
    using h e one_tool_call_per_session [OF h, where ?self0.0 = "init demo" and calls =
      "[ParseStreaming ''T{'', ParseStreaming ''}<|call|>zz'', ParseStreaming ''T{<|call|>'',
        HandleParseStreamingEnd]"]
    by blast
qed


subsection \<open>While arguments are captured\<close>

lemma process_tokens_capturing:
  "state self = FOUND_ARGUMENTS \<Longrightarrow> process_tokens H ts self rcs cs = (r, self')
     \<Longrightarrow> arguments_buffer self' = arguments_buffer self @ deltas H (parser self) ts
       \<and> state self' = FOUND_ARGUMENTS
       \<and> function_name_buffer self' = function_name_buffer self
       \<and> (\<forall>x. r = Inr x \<longrightarrow> x = (rcs, cs))"
proof (induction ts arbitrary: self)
  case Nil
  then show ?case by (auto simp: deltas_def)
next
  case (Cons t ts)
  obtain p o1 where po: "process H (parser self) t = (p, o1)" by (cases "process H (parser self) t")
  show ?case
  proof (cases o1)
    case (Inl e)
    then show ?thesis using Cons.prems po
      by (auto simp: process_token_def deltas_def)
  next
    case (Inr st)
    let ?d = "or_empty (last_content_delta st)"
    let ?s1 = "if ?d = [] then self\<lparr>parser := p\<rparr>
               else self\<lparr>parser := p, arguments_buffer := arguments_buffer self @ [?d]\<rparr>"
    have step: "process_token H self rcs cs t = (Inr (rcs, cs), ?s1)"
      using po Inr Cons.prems(1) by (simp add: process_token_def Let_def)
    have rest: "process_tokens H ts ?s1 rcs cs = (r, self')"
      using Cons.prems(2) step by simp
    have st1: "state ?s1 = FOUND_ARGUMENTS" using Cons.prems(1) by simp
    from Cons.IH [OF st1 rest] show ?thesis
      using po Inr by (auto simp: deltas_def)
  qed
qed

lemma build_result_empty:
  "content (build_result [] tcs []) = None" "reasoning_content (build_result [] tcs []) = None"
  "tool_calls (build_result rcs tcs cs) = tcs"
  by (simp_all add: build_result_def str_or_none_def)

text \<open>
  C4. In a call that starts in state \<open>FOUND_ARGUMENTS\<close>, the argument buffer receives
  every non-empty delta the decoder produces for the tokens of the chunk, whatever
  channel and recipient it reports with them (\<open>deltas\<close> does not look at either), and
  the result has neither content nor reasoning content. Without the end marker, or when
  the decoder raises, the buffer afterwards is the old one followed by those deltas
  and the state is unchanged; with the end marker the emitted arguments are their
  concatenation.
\<close>

theorem capturing_appends_every_delta:
  assumes "state self = FOUND_ARGUMENTS"
    and "encode H (fst (truncate_at_marker chunk)) = Inr ts"
    and "parse_streaming H self chunk = (r, self')"
  shows "(\<forall>res fin. r = Inr (res, fin) \<longrightarrow>
            (\<exists>res'. res = Some res' \<and> content res' = None \<and> reasoning_content res' = None))
     \<and> ((\<exists>x. r = Inr x) \<and> str_in end_tool_chunk chunk \<longrightarrow>
           emitted r = [\<lparr>name = function_name_buffer self,
             arguments = concat (arguments_buffer self @ deltas H (parser self) ts)\<rparr>])
     \<and> (\<not> ((\<exists>x. r = Inr x) \<and> str_in end_tool_chunk chunk) \<longrightarrow>
           state self' = FOUND_ARGUMENTS
         \<and> arguments_buffer self' = arguments_buffer self @ deltas H (parser self) ts
         \<and> function_name_buffer self' = function_name_buffer self)"
  using assms(3)
proof (cases rule: parse_streaming_outcome)
  case ended
  then show ?thesis using assms(1) by simp
next
  case (encode_raise e)
  then show ?thesis using assms(2) by simp
next
  case (process_raise ts' e)
  then have "process_tokens H ts self [] [] = (Inl e, self')" using assms(2) by simp
  from process_tokens_capturing [OF assms(1) this] show ?thesis
    using process_raise(4) by simp
next
  case (flush ts' rcs cs self1)
  then have "process_tokens H ts self [] [] = (Inr (rcs, cs), self1)" using assms(2) by simp
  from process_tokens_capturing [OF assms(1) this]
  have "arguments_buffer self1 = arguments_buffer self @ deltas H (parser self) ts"
    "function_name_buffer self1 = function_name_buffer self" "rcs = []" "cs = []"
    by simp_all
  then have "emitted r = [\<lparr>name = function_name_buffer self,
             arguments = concat (arguments_buffer self @ deltas H (parser self) ts)\<rparr>]"
    "\<forall>res fin. r = Inr (res, fin) \<longrightarrow>
        (\<exists>res'. res = Some res' \<and> content res' = None \<and> reasoning_content res' = None)"
    using flush(5) by (simp_all add: emitted_simps build_result_empty)
  moreover have "\<exists>x. r = Inr x" using flush(5) by blast
  ultimately show ?thesis using flush(2) by blast
next
  case (partial ts' rcs cs)
  then have "process_tokens H ts self [] [] = (Inr (rcs, cs), self')" using assms(2) by simp
  from process_tokens_capturing [OF assms(1) this]
  have "arguments_buffer self' = arguments_buffer self @ deltas H (parser self) ts"
    "function_name_buffer self' = function_name_buffer self" "rcs = []" "cs = []"
    "state self' = FOUND_ARGUMENTS"
    by simp_all
  moreover from this have "\<forall>res fin. r = Inr (res, fin) \<longrightarrow>
        (\<exists>res'. res = Some res' \<and> content res' = None \<and> reasoning_content res' = None)"
    using partial(5) by (simp add: build_result_empty)
  ultimately show ?thesis using partial(2) by blast
qed

theorem capturing_appends_every_delta_witness:
  "state demo_capturing = FOUND_ARGUMENTS
   \<and> encode demo (fst (truncate_at_marker ''Ax'')) = Inr ''Ax''
   \<and> parse_streaming demo demo_capturing ''Ax''
       = (Inr (Some \<lparr>content = None, tool_calls = None, reasoning_content = None\<rparr>, False),
          \<lparr>parser = (Some ''analysis'', None, False), state = FOUND_ARGUMENTS,
           arguments_buffer = [''{'', ''x''], function_name_buffer = ''get_weather''\<rparr>)
   \<and> arguments_buffer demo_capturing @ deltas demo (parser demo_capturing) ''Ax''
       = [''{'', ''x'']
   \<and> encode demo (fst (truncate_at_marker ''F}<|call|>zz'')) = Inr ''F}<|call|>''
   \<and> parse_streaming demo demo_capturing ''F}<|call|>zz''
       = (Inr (Some \<lparr>content = None,
                 tool_calls = Some [\<lparr>name = ''get_weather'', arguments = ''{}''\<rparr>],
                 reasoning_content = None\<rparr>, True),
          \<lparr>parser = (Some ''final'', None, False), state = END_STREAM,
           arguments_buffer = [], function_name_buffer = []\<rparr>)
   \<and> str_in end_tool_chunk ''F}<|call|>zz''
   \<and> [\<lparr>name = ''get_weather'', arguments = ''{}''\<rparr>]
       = [\<lparr>name = function_name_buffer demo_capturing,
           arguments = concat (arguments_buffer demo_capturing
             @ deltas demo (parser demo_capturing) ''F}<|call|>'')\<rparr>]"
proof -
  have h1: "state demo_capturing = FOUND_ARGUMENTS"
    by code_simp
  have h2: "encode demo (fst (truncate_at_marker ''Ax'')) = Inr ''Ax''"
    by code_simp
  have h3: "parse_streaming demo demo_capturing ''Ax''
       = (Inr (Some \<lparr>content = None, tool_calls = None, reasoning_content = None\<rparr>, False),
          \<lparr>parser = (Some ''analysis'', None, False), state = FOUND_ARGUMENTS,
           arguments_buffer = [''{'', ''x''], function_name_buffer = ''get_weather''\<rparr>)"
    by code_simp
  have h4: "\<not> str_in end_tool_chunk ''Ax''" by code_simp
  have k2: "encode demo (fst (truncate_at_marker ''F}<|call|>zz'')) = Inr ''F}<|call|>''"
    by code_simp
  have k3: "parse_streaming demo demo_capturing ''F}<|call|>zz''
       = (Inr (Some \<lparr>content = None,
                 tool_calls = Some [\<lparr>name = ''get_weather'', arguments = ''{}''\<rparr>],
                 reasoning_content = None\<rparr>, True),
          \<lparr>parser = (Some ''final'', None, False), state = END_STREAM,
           arguments_buffer = [], function_name_buffer = []\<rparr>)"
    by code_simp
  have k4: "str_in end_tool_chunk ''F}<|call|>zz''" by code_simp
  have c1: "arguments_buffer demo_capturing @ deltas demo (parser demo_capturing) ''Ax''
       = [''{'', ''x'']"
    using capturing_appends_every_delta [OF h1 h2 h3] h4 by simp
  have c2: "[\<lparr>name = ''get_weather'', arguments = ''{}''\<rparr>]
       = [\<lparr>name = function_name_buffer demo_capturing,
           arguments = concat (arguments_buffer demo_capturing
             @ deltas demo (parser demo_capturing) ''F}<|call|>'')\<rparr>]"
  proof -
    have "\<exists>x. (Inr (Some \<lparr>content = None,
                 tool_calls = Some [\<lparr>name = ''get_weather'', arguments = ''{}''\<rparr>],
                 reasoning_content = None\<rparr>, True) :: stream_return) = Inr x"
      by blast
    then have "emitted (Inr (Some \<lparr>content = None,
                 tool_calls = Some [\<lparr>name = ''get_weather'', arguments = ''{}''\<rparr>],
                 reasoning_content = None\<rparr>, True))
       = [\<lparr>name = function_name_buffer demo_capturing,
           arguments = concat (arguments_buffer demo_capturing
             @ deltas demo (parser demo_capturing) ''F}<|call|>'')\<rparr>]"
      using capturing_appends_every_delta [OF h1 k2 k3] k4 by blast
    then show ?thesis by (simp add: emitted_def)
  qed
  show ?thesis
    using h1 h2 h3 k2 k3 k4 c1 c2 by blast
qed

subsection \<open>The flush at the end of the stream\<close>

lemma truncate_at_marker_itself: "truncate_at_marker end_tool_chunk = (end_tool_chunk, True)"
proof -
  have "\<not> str_in end_tool_chunk ([] @ butlast end_tool_chunk)"
    by (simp add: end_tool_chunk_def)
  from truncate_at_first_marker [OF this, of "[]"] show ?thesis by simp
qed

text \<open>
  C7, as the code has it. In state \<open>FOUND_ARGUMENTS\<close>, \<open>handle_parse_streaming_end\<close> is
  \<open>parse_streaming\<close> on the end marker: when it returns, the state is \<open>END_STREAM\<close>, the
  flag is true and the one tool call has the pending name and the joined buffer (with
  whatever the decoder produces for the marker's tokens). In any other state it returns
  \<open>(None, False)\<close> and leaves the instance as it was.
\<close>

theorem handle_parse_streaming_end_flush:
  "(state self = FOUND_ARGUMENTS \<longrightarrow>
       handle_parse_streaming_end H self = parse_streaming H self end_tool_chunk
     \<and> (\<forall>x self'. handle_parse_streaming_end H self = (Inr x, self') \<longrightarrow>
           state self' = END_STREAM
         \<and> (\<exists>ts res. encode H end_tool_chunk = Inr ts \<and> x = (Some res, True)
              \<and> tool_calls res = Some [\<lparr>name = function_name_buffer self,
                   arguments = concat (arguments_buffer self @ deltas H (parser self) ts)\<rparr>])))
   \<and> (state self \<noteq> FOUND_ARGUMENTS \<longrightarrow>
        handle_parse_streaming_end H self = (Inr (None, False), self))"
proof (cases "state self = FOUND_ARGUMENTS")
  case False
  then show ?thesis by (simp add: handle_parse_streaming_end_def)
next
  case True
  have eq: "handle_parse_streaming_end H self = parse_streaming H self end_tool_chunk"
    using True by (simp add: handle_parse_streaming_end_def)
  have "state self' = END_STREAM
         \<and> (\<exists>ts res. encode H end_tool_chunk = Inr ts \<and> x = (Some res, True)
              \<and> tool_calls res = Some [\<lparr>name = function_name_buffer self,
                   arguments = concat (arguments_buffer self @ deltas H (parser self) ts)\<rparr>])"
    if ret: "parse_streaming H self end_tool_chunk = (Inr x, self')" for x self'
    using ret
  proof (cases rule: parse_streaming_outcome)
    case ended
    then show ?thesis using True by simp
  next
    case (encode_raise e)
    then show ?thesis by simp
  next
    case (process_raise ts e)
    then show ?thesis by simp
  next
    case (flush ts rcs cs self1)
    have enc: "encode H end_tool_chunk = Inr ts"
      using flush(3) by (simp add: truncate_at_marker_itself)
    from process_tokens_capturing [OF True flush(4)]
    have "arguments_buffer self1 = arguments_buffer self @ deltas H (parser self) ts"
      "function_name_buffer self1 = function_name_buffer self"
      by simp_all
    then show ?thesis using flush(5,6) enc by (simp add: build_result_empty)
  next
    case (partial ts rcs cs)
    then show ?thesis by (simp add: str_in_refl)
  qed
  then show ?thesis using True eq by simp
qed

theorem handle_parse_streaming_end_flush_witness:
  "state demo_capturing = FOUND_ARGUMENTS
   \<and> handle_parse_streaming_end demo demo_capturing
       = parse_streaming demo demo_capturing end_tool_chunk
   \<and> handle_parse_streaming_end demo demo_capturing
       = (Inr (Some \<lparr>content = None,
                 tool_calls = Some [\<lparr>name = ''get_weather'', arguments = ''{''\<rparr>],
                 reasoning_content = None\<rparr>, True),
          \<lparr>parser = (Some ''commentary'', Some ''functions.get_weather'', False),
           state = END_STREAM, arguments_buffer = [], function_name_buffer = []\<rparr>)
   \<and> state (init demo) \<noteq> FOUND_ARGUMENTS
   \<and> handle_parse_streaming_end demo (init demo) = (Inr (None, False), init demo)"
proof -
  have h1: "state demo_capturing = FOUND_ARGUMENTS" by code_simp
  have h2: "state (init demo :: demo_state HarmonyParser) \<noteq> FOUND_ARGUMENTS" by code_simp
  have h3: "handle_parse_streaming_end demo demo_capturing
       = (Inr (Some \<lparr>content = None,
                 tool_calls = Some [\<lparr>name = ''get_weather'', arguments = ''{''\<rparr>],
                 reasoning_content = None\<rparr>, True),
          \<lparr>parser = (Some ''commentary'', Some ''functions.get_weather'', False),
           state = END_STREAM, arguments_buffer = [], function_name_buffer = []\<rparr>)"
    by code_simp
  show ?thesis
    using h1 h2 h3 handle_parse_streaming_end_flush [of demo_capturing demo]
      handle_parse_streaming_end_flush [of "init demo" demo]
    by blast
qed

text \<open>
  C7 as stated has the flush return the tool call and end the stream whenever the state
  is \<open>FOUND_ARGUMENTS\<close>. The marker's tokens go through the decoder first (line 103), and
  a decoder that rejects them raises out of the call: on \<open>strict_capturing\<close> the flush
  raises, returns nothing, and the state is still \<open>FOUND_ARGUMENTS\<close>.
\<close>

theorem flush_raises_counterexample:
  "state strict_capturing = FOUND_ARGUMENTS
   \<and> handle_parse_streaming_end strict_demo strict_capturing
       = (Inl (EngineError ''unexpected token''), strict_capturing)
   \<and> state (snd (handle_parse_streaming_end strict_demo strict_capturing)) \<noteq> END_STREAM"
  by code_simp

subsection \<open>A call without the end marker\<close>

lemma reports_Cons:
  "process H p t = (p', Inr st) \<Longrightarrow>
     reports H p (t # ts) =
       (if or_empty (last_content_delta st) = [] then []
        else [(or_empty (last_content_delta st), current_channel st,
               or_empty (current_recipient st))]) @ reports H p' ts"
  by simp

lemma deltas_on_skip:
  "process H p t = (p', Inr st) \<Longrightarrow> or_empty (last_content_delta st) = []
     \<Longrightarrow> deltas_on chan H p (t # ts) = deltas_on chan H p' ts"
  by (simp add: deltas_on_def)

lemma deltas_on_hit:
  "process H p t = (p', Inr st) \<Longrightarrow> or_empty (last_content_delta st) \<noteq> []
     \<Longrightarrow> current_channel st = Some chan
     \<Longrightarrow> deltas_on chan H p (t # ts) = or_empty (last_content_delta st) # deltas_on chan H p' ts"
  by (simp add: deltas_on_def)

lemma deltas_on_miss:
  "process H p t = (p', Inr st) \<Longrightarrow> current_channel st \<noteq> Some chan
     \<Longrightarrow> deltas_on chan H p (t # ts) = deltas_on chan H p' ts"
  by (simp add: deltas_on_def)

lemma deltas_on_later:
  "process H p t = (p', Inr st) \<Longrightarrow> subseq ds (deltas_on chan H p' ts)
     \<Longrightarrow> subseq ds (deltas_on chan H p (t # ts))"
  by (auto simp: deltas_on_def)

lemma analysis_not_final: "ANALYSIS \<noteq> FINAL"
  by (simp add: ANALYSIS_def FINAL_def)

lemma deltas_on_not_empty: "d \<in> set (deltas_on chan H p ts) \<Longrightarrow> d \<noteq> []"
proof (induction ts arbitrary: p)
  case Nil
  then show ?case by (simp add: deltas_on_def)
next
  case (Cons t ts)
  obtain p' o1 where po: "process H p t = (p', o1)" by (cases "process H p t")
  show ?case
  proof (cases o1)
    case (Inl e)
    then show ?thesis using Cons.prems po by (simp add: deltas_on_def)
  next
    case (Inr st)
    then have "d = or_empty (last_content_delta st) \<and> or_empty (last_content_delta st) \<noteq> []
        \<or> d \<in> set (deltas_on chan H p' ts)"
      using Cons.prems po by (auto simp: deltas_on_def split: if_splits)
    then show ?thesis using Cons.IH [of p'] by auto
  qed
qed

lemma process_tokens_locals:
  "process_tokens H ts self rcs cs = (Inr (rcs', cs'), self') \<Longrightarrow>
     \<exists>dr dc. rcs' = rcs @ dr \<and> cs' = cs @ dc
       \<and> subseq dr (deltas_on ANALYSIS H (parser self) ts)
       \<and> subseq dc (deltas_on FINAL H (parser self) ts)"
proof (induction ts arbitrary: self rcs cs)
  case Nil
  then show ?case by simp
next
  case (Cons t ts)
  obtain r1 s1 where step: "process_token H self rcs cs t = (r1, s1)"
    by (cases "process_token H self rcs cs t")
  have later: "\<exists>dr dc. rcs' = rcs1 @ dr \<and> cs' = cs1 @ dc
       \<and> subseq dr (deltas_on ANALYSIS H (parser s1) ts)
       \<and> subseq dc (deltas_on FINAL H (parser s1) ts)"
    if "r1 = Inr (rcs1, cs1)" for rcs1 cs1
    using Cons.IH [of s1 rcs1 cs1] Cons.prems step that by simp
  have keep: ?case
    if k: "process H (parser self) t = (p, Inr st)" "r1 = Inr (rcs, cs)" "parser s1 = p"
    for p st
  proof -
    obtain dr dc where d: "rcs' = rcs @ dr" "cs' = cs @ dc"
        "subseq dr (deltas_on ANALYSIS H p ts)" "subseq dc (deltas_on FINAL H p ts)"
      using later [OF k(2)] k(3) by auto
    have "subseq dr (deltas_on ANALYSIS H (parser self) (t # ts))"
      using deltas_on_later [OF k(1) d(3)] .
    moreover have "subseq dc (deltas_on FINAL H (parser self) (t # ts))"
      using deltas_on_later [OF k(1) d(4)] .
    ultimately show ?thesis using d(1,2) by blast
  qed
  from step show ?case
  proof (cases rule: process_token_outcome)
    case (raise p e)
    then show ?thesis using Cons.prems step by simp
  next
    case (skip p st)
    then show ?thesis using keep [of p st] by simp
  next
    case (capture p st)
    then show ?thesis using keep [of p st] by simp
  next
    case (tool p st)
    then show ?thesis using keep [of p st] by simp
  next
    case (other p st)
    then show ?thesis using keep [of p st] by simp
  next
    case (analysis p st)
    let ?d = "or_empty (last_content_delta st)"
    obtain dr dc where d: "rcs' = (rcs @ [?d]) @ dr" "cs' = cs @ dc"
        "subseq dr (deltas_on ANALYSIS H p ts)" "subseq dc (deltas_on FINAL H p ts)"
      using later [of "rcs @ [?d]" cs] analysis(6,7) by auto
    have "subseq (?d # dr) (deltas_on ANALYSIS H (parser self) (t # ts))"
      using deltas_on_hit [OF analysis(1,2,5)] d(3) by simp
    moreover have "subseq dc (deltas_on FINAL H (parser self) (t # ts))"
      using deltas_on_later [OF analysis(1) d(4)] .
    moreover have "rcs' = rcs @ (?d # dr)" using d(1) by simp
    ultimately show ?thesis using d(2) by blast
  next
    case (final p st)
    let ?d = "or_empty (last_content_delta st)"
    obtain dr dc where d: "rcs' = rcs @ dr" "cs' = (cs @ [?d]) @ dc"
        "subseq dr (deltas_on ANALYSIS H p ts)" "subseq dc (deltas_on FINAL H p ts)"
      using later [of rcs "cs @ [?d]"] final(7,8) by auto
    have "subseq (?d # dc) (deltas_on FINAL H (parser self) (t # ts))"
      using deltas_on_hit [OF final(1,2,6)] d(4) by simp
    moreover have "subseq dr (deltas_on ANALYSIS H (parser self) (t # ts))"
      using deltas_on_later [OF final(1) d(3)] .
    moreover have "cs' = cs @ (?d # dc)" using d(2) by simp
    ultimately show ?thesis using d(1) by blast
  qed
qed

lemma concat_not_empty: "[] \<notin> set ds \<Longrightarrow> ds \<noteq> [] \<Longrightarrow> concat ds \<noteq> []"
proof -
  assume a: "[] \<notin> set ds" and b: "ds \<noteq> []"
  obtain x xs where ds: "ds = x # xs" using b by (cases ds) simp_all
  have "x \<in> set ds" unfolding ds by simp
  then have "x \<noteq> []" using a by metis
  then show ?thesis unfolding ds by simp
qed

lemma subseq_set_subset:
  assumes "subseq xs ys"
  shows "set xs \<subseteq> set ys"
proof
  fix x
  assume "x \<in> set xs"
  from list_emb_set [OF assms this] obtain y where "y \<in> set ys" "x = y" .
  then show "x \<in> set ys" by simp
qed

lemma str_or_none_concat:
  assumes "subseq ds (deltas_on chan H p ts)"
  shows "str_or_none (concat ds) = (if ds = [] then None else Some (concat ds))"
proof -
  have sub: "set ds \<subseteq> set (deltas_on chan H p ts)"
    using assms by (rule subseq_set_subset)
  have ne: "[] \<notin> set ds"
  proof
    assume "[] \<in> set ds"
    then have "[] \<in> set (deltas_on chan H p ts)" using sub by (rule subsetD [rotated])
    from deltas_on_not_empty [OF this] show False by simp
  qed
  show ?thesis
  proof (cases "ds = []")
    case True
    then show ?thesis by (simp add: str_or_none_def)
  next
    case False
    then have "concat ds \<noteq> []" using ne by (rule concat_not_empty [rotated])
    then show ?thesis using False by (simp add: str_or_none_def)
  qed
qed

text \<open>
  C8. A call on a stream not yet ended, with a chunk without the end marker, that
  returns: the flag is false, \<open>tool_calls\<close> is \<open>None\<close>, the content is the concatenation
  of some of the final-channel deltas of this call's tokens, in order, and \<open>None\<close> when
  there are none of them; likewise the reasoning content and the analysis-channel
  deltas.
\<close>

theorem non_terminal_return:
  assumes "state self \<noteq> END_STREAM"
    and "\<not> str_in end_tool_chunk chunk"
    and "parse_streaming H self chunk = (Inr x, self')"
  shows "\<exists>ts res dr dc. encode H chunk = Inr ts \<and> x = (Some res, False)
     \<and> tool_calls res = None
     \<and> subseq dc (deltas_on FINAL H (parser self) ts)
     \<and> content res = (if dc = [] then None else Some (concat dc))
     \<and> subseq dr (deltas_on ANALYSIS H (parser self) ts)
     \<and> reasoning_content res = (if dr = [] then None else Some (concat dr))"
  using assms(3)
proof (cases rule: parse_streaming_outcome)
  case ended
  then show ?thesis using assms(1) by simp
next
  case (encode_raise e)
  then show ?thesis by simp
next
  case (process_raise ts e)
  then show ?thesis by simp
next
  case (flush ts rcs cs self1)
  then show ?thesis using assms(2) by simp
next
  case (partial ts rcs cs)
  have enc: "encode H chunk = Inr ts"
    using partial(3) assms(2) by (simp add: truncate_at_marker_none)
  obtain dr dc where d: "rcs = dr" "cs = dc"
      "subseq dr (deltas_on ANALYSIS H (parser self) ts)"
      "subseq dc (deltas_on FINAL H (parser self) ts)"
    using process_tokens_locals [OF partial(4)] by auto
  have "content (build_result rcs None cs) = (if dc = [] then None else Some (concat dc))"
    "reasoning_content (build_result rcs None cs) = (if dr = [] then None else Some (concat dr))"
    using str_or_none_concat [OF d(3)] str_or_none_concat [OF d(4)] d(1,2)
    by (simp_all add: build_result_def)
  moreover have "tool_calls (build_result rcs None cs) = None"
    by (simp add: build_result_def)
  moreover have "x = (Some (build_result rcs None cs), False)" using partial(5) by simp
  ultimately show ?thesis using enc d(3,4) by blast
qed

theorem non_terminal_return_witness:
  "state (init demo :: demo_state HarmonyParser) \<noteq> END_STREAM
   \<and> \<not> str_in end_tool_chunk ''AhmFhiCok''
   \<and> parse_streaming demo (init demo) ''AhmFhiCok''
       = (Inr (Some \<lparr>content = Some ''hi'', tool_calls = None, reasoning_content = Some ''hm''\<rparr>,
               False),
          \<lparr>parser = (Some ''commentary'', None, False), state = FOUND_ARGUMENTS,
           arguments_buffer = [''o'', ''k''], function_name_buffer = []\<rparr>)
   \<and> (\<exists>ts (res :: ToolCall list option Result) dr dc. encode demo ''AhmFhiCok'' = Inr ts
     \<and> (Some \<lparr>content = Some ''hi'', tool_calls = None, reasoning_content = Some ''hm''\<rparr>,
               False) = (Some res, False)
     \<and> tool_calls res = None
     \<and> subseq dc (deltas_on FINAL demo (parser (init demo)) ts)
     \<and> content res = (if dc = [] then None else Some (concat dc))
     \<and> subseq dr (deltas_on ANALYSIS demo (parser (init demo)) ts)
     \<and> reasoning_content res = (if dr = [] then None else Some (concat dr)))"
proof -
  have h1: "state (init demo :: demo_state HarmonyParser) \<noteq> END_STREAM" by code_simp
  have h2: "\<not> str_in end_tool_chunk ''AhmFhiCok''" by code_simp
  have h3: "parse_streaming demo (init demo) ''AhmFhiCok''
       = (Inr (Some \<lparr>content = Some ''hi'', tool_calls = None, reasoning_content = Some ''hm''\<rparr>,
               False),
          \<lparr>parser = (Some ''commentary'', None, False), state = FOUND_ARGUMENTS,
           arguments_buffer = [''o'', ''k''], function_name_buffer = []\<rparr>)"
    by code_simp
  show ?thesis
    using h1 h2 h3 non_terminal_return [OF h1 h2 h3] by (intro conjI) assumption+
qed


subsection \<open>The end marker without a tool call\<close>

lemma reports_later:
  "process H p t = (p', Inr st) \<Longrightarrow> x \<in> set (reports H p' ts)
     \<Longrightarrow> x \<in> set (reports H p (t # ts))"
  by simp

lemma reports_first:
  "process H p t = (p', Inr st) \<Longrightarrow> or_empty (last_content_delta st) \<noteq> []
     \<Longrightarrow> (or_empty (last_content_delta st), current_channel st,
           or_empty (current_recipient st)) \<in> set (reports H p (t # ts))"
  by simp

lemma process_tokens_no_tool_call:
  assumes "state self \<noteq> FOUND_ARGUMENTS"
    and "\<forall>(d, c, r) \<in> set (reports H (parser self) ts). \<not> is_tool_call c r"
    and "process_tokens H ts self rcs cs = (r0, self')"
  shows "state self' = state self \<and> arguments_buffer self' = arguments_buffer self
     \<and> function_name_buffer self' = function_name_buffer self"
  using assms
proof (induction ts arbitrary: self rcs cs)
  case Nil
  then show ?case by simp
next
  case (Cons t ts)
  obtain r1 s1 where step: "process_token H self rcs cs t = (r1, s1)"
    by (cases "process_token H self rcs cs t")
  have keep: ?case
    if k: "process H (parser self) t = (p, Inr st)" "r1 = Inr (rcs1, cs1)"
      "s1 = self\<lparr>parser := p\<rparr>"
    for p st rcs1 cs1
  proof -
    have a: "state s1 \<noteq> FOUND_ARGUMENTS" using Cons.prems(1) k(3) by simp
    have b: "\<forall>(d, c, r) \<in> set (reports H (parser s1) ts). \<not> is_tool_call c r"
    proof
      fix x
      assume "x \<in> set (reports H (parser s1) ts)"
      then have "x \<in> set (reports H p ts)" using k(3) by simp
      then have "x \<in> set (reports H (parser self) (t # ts))"
        using reports_later [OF k(1)] by blast
      then show "case x of (d, c, r) \<Rightarrow> \<not> is_tool_call c r"
        using Cons.prems(2) by blast
    qed
    have c: "process_tokens H ts s1 rcs1 cs1 = (r0, self')"
      using Cons.prems(3) step k(2) by simp
    from Cons.IH [OF a b c] show ?thesis using k(3) by simp
  qed
  from step show ?case
  proof (cases rule: process_token_outcome)
    case (raise p e)
    then have "self' = self\<lparr>parser := p\<rparr>" using Cons.prems(3) step by simp
    then show ?thesis by simp
  next
    case (skip p st)
    then show ?thesis using keep [of p st rcs cs] by simp
  next
    case (capture p st)
    then show ?thesis using Cons.prems(1) by simp
  next
    case (tool p st)
    have "(or_empty (last_content_delta st), current_channel st,
           or_empty (current_recipient st)) \<in> set (reports H (parser self) (t # ts))"
      using reports_first [OF tool(1,2)] .
    then have "\<not> is_tool_call (current_channel st) (or_empty (current_recipient st))"
      using Cons.prems(2) by blast
    then show ?thesis using tool(4) by simp
  next
    case (analysis p st)
    then show ?thesis using keep [of p st "rcs @ [or_empty (last_content_delta st)]" cs] by simp
  next
    case (final p st)
    then show ?thesis using keep [of p st rcs "cs @ [or_empty (last_content_delta st)]"] by simp
  next
    case (other p st)
    then show ?thesis using keep [of p st rcs cs] by simp
  qed
qed

text \<open>
  C9, as the code has it. On an instance reached from a fresh one by any streaming calls
  and still in state \<open>NORMAL\<close> (so no delta has been classified as a tool call so far),
  a chunk with the end marker none of whose deltas is classified as a tool call either
  still ends the stream when the call returns: the flag is true, \<open>tool_calls\<close> holds
  exactly one entry, with the empty name and the empty arguments, and the state is
  \<open>END_STREAM\<close>.
\<close>

theorem marker_without_tool_call:
  assumes "self = snd (session H (init H) calls)"
    and "state self = NORMAL"
    and "str_in end_tool_chunk chunk"
    and "encode H (fst (truncate_at_marker chunk)) = Inr ts"
    and "list_all (\<lambda>(d, c, r). \<not> is_tool_call c r) (reports H (parser self) ts)"
    and "parse_streaming H self chunk = (Inr x, self')"
  shows "\<exists>res. x = (Some res, True)
     \<and> tool_calls res = Some [\<lparr>name = [], arguments = []\<rparr>]
     \<and> state self' = END_STREAM"
proof -
  have "settled (init H)" by (rule init_settled)
  then have "settled (snd (session H (init H) calls))" by (rule session_settled)
  then have empty: "arguments_buffer self = []" "function_name_buffer self = []"
    using assms(1,2) by (simp_all add: settled_def)
  have nf: "state self \<noteq> FOUND_ARGUMENTS" using assms(2) by simp
  have none: "\<forall>(d, c, r) \<in> set (reports H (parser self) ts). \<not> is_tool_call c r"
    using assms(5) by (simp add: list_all_iff)
  from assms(6) show ?thesis
  proof (cases rule: parse_streaming_outcome)
    case ended
    then show ?thesis using assms(2) by simp
  next
    case (encode_raise e)
    then show ?thesis by simp
  next
    case (process_raise ts' e)
    then show ?thesis by simp
  next
    case (flush ts' rcs cs self1)
    have "process_tokens H ts self [] [] = (Inr (rcs, cs), self1)"
      using flush(3,4) assms(4) by simp
    from process_tokens_no_tool_call [OF nf none this]
    have "arguments_buffer self1 = []" "function_name_buffer self1 = []"
      using empty by simp_all
    then show ?thesis using flush(5,6) by (simp add: build_result_empty)
  next
    case (partial ts' rcs cs)
    then show ?thesis using assms(3) by simp
  qed
qed

theorem marker_without_tool_call_witness:
  "state (snd (session demo (init demo) [ParseStreaming ''Ahm''])) = NORMAL
   \<and> str_in end_tool_chunk ''Fhi<|call|>zz''
   \<and> encode demo (fst (truncate_at_marker ''Fhi<|call|>zz'')) = Inr ''Fhi<|call|>''
   \<and> list_all (\<lambda>(d, c, r). \<not> is_tool_call c r)
        (reports demo (parser (snd (session demo (init demo) [ParseStreaming ''Ahm''])))
           ''Fhi<|call|>'')
   \<and> parse_streaming demo (snd (session demo (init demo) [ParseStreaming ''Ahm'']))
        ''Fhi<|call|>zz''
       = (Inr (Some \<lparr>content = Some ''hi'',
                 tool_calls = Some [\<lparr>name = [], arguments = []\<rparr>],
                 reasoning_content = None\<rparr>, True),
          \<lparr>parser = (Some ''final'', None, False), state = END_STREAM,
           arguments_buffer = [], function_name_buffer = []\<rparr>)
   \<and> (\<exists>res :: ToolCall list option Result.
         (Some \<lparr>content = Some ''hi'',
                 tool_calls = Some [\<lparr>name = [], arguments = []\<rparr>],
                 reasoning_content = None\<rparr>, True) = (Some res, True)
       \<and> tool_calls res = Some [\<lparr>name = [], arguments = []\<rparr>]
       \<and> state \<lparr>parser = (Some ''final'', None :: string option, False),
             state = END_STREAM, arguments_buffer = [], function_name_buffer = []\<rparr>
           = END_STREAM)"
proof -
  have h2: "state (snd (session demo (init demo) [ParseStreaming ''Ahm''])) = NORMAL"
    by code_simp
  have h3: "str_in end_tool_chunk ''Fhi<|call|>zz''" by code_simp
  have h4: "encode demo (fst (truncate_at_marker ''Fhi<|call|>zz'')) = Inr ''Fhi<|call|>''"
    by code_simp
  have h5: "list_all (\<lambda>(d, c, r). \<not> is_tool_call c r)
        (reports demo (parser (snd (session demo (init demo) [ParseStreaming ''Ahm''])))
           ''Fhi<|call|>'')"
    by code_simp
  have h6: "parse_streaming demo (snd (session demo (init demo) [ParseStreaming ''Ahm'']))
        ''Fhi<|call|>zz''
       = (Inr (Some \<lparr>content = Some ''hi'',
                 tool_calls = Some [\<lparr>name = [], arguments = []\<rparr>],
                 reasoning_content = None\<rparr>, True),
          \<lparr>parser = (Some ''final'', None, False), state = END_STREAM,
           arguments_buffer = [], function_name_buffer = []\<rparr>)"
    by code_simp
  show ?thesis
    using h2 h3 h4 h5 h6 marker_without_tool_call [OF refl h2 h3 h4 h5 h6]
    by (intro conjI) assumption+
qed


text \<open>
  C9 as stated has every such call return and end the stream. The chunk's tokens go
  through the decoder before the flush (lines 102-103), and a decoder that rejects them
  raises out of the call: on \<open>strict_normal\<close>, where no tool call was ever seen, the
  chunk \<open><|call|>\<close> raises, returns nothing, and the state is still \<open>NORMAL\<close>.
\<close>

theorem marker_raises_counterexample:
  "state strict_normal = NORMAL
   \<and> str_in end_tool_chunk ''<|call|>''
   \<and> parse_streaming strict_demo strict_normal ''<|call|>''
       = (Inl (EngineError ''unexpected token''), strict_normal)
   \<and> state (snd (parse_streaming strict_demo strict_normal ''<|call|>'')) \<noteq> END_STREAM"
  by code_simp

subsection \<open>Tool calls of the one-shot parser\<close>

lemma parse_message_tool_calls:
  assumes "parse_message result m = Inr result'"
  shows "(names_tool m \<longrightarrow>
            (\<exists>tc. entry_of tc m \<and> tool_calls result' = tool_calls result @ [tc]))
     \<and> (\<not> names_tool m \<longrightarrow> tool_calls result' = tool_calls result)"
proof (cases "names_tool m")
  case True
  then have g: "is_tool_call (channel m) (or_empty (recipient m)) \<and> or_empty (recipient m) \<noteq> []"
    by (simp add: names_tool_def is_tool_call_def)
  obtain t where t: "first_text m = Inr t"
    using assms g by (cases "first_text m") (simp_all add: parse_message_def)
  let ?tc = "\<lparr>name = str_replace (or_empty (recipient m)) ''functions.'' [], arguments = t\<rparr>"
  have "result' = result\<lparr>tool_calls := tool_calls result @ [?tc]\<rparr>"
    using assms g t by (simp add: parse_message_def)
  then have "tool_calls result' = tool_calls result @ [?tc]" by simp
  moreover have "entry_of ?tc m" using t by (simp add: entry_of_def)
  ultimately show ?thesis using True by blast
next
  case False
  then have g: "\<not> (is_tool_call (channel m) (or_empty (recipient m))
      \<and> or_empty (recipient m) \<noteq> [])"
    by (auto simp: names_tool_def is_tool_call_def)
  have "tool_calls result' = tool_calls result"
    using assms g by (auto simp: parse_message_def Let_def split: if_splits sum.splits)
  then show ?thesis using False by simp
qed

lemma parse_messages_tool_calls:
  "parse_messages msgs result = Inr res \<Longrightarrow>
     \<exists>new. tool_calls res = tool_calls result @ new
       \<and> list_all2 entry_of new (filter names_tool msgs)"
proof (induction msgs arbitrary: result)
  case Nil
  then show ?case by simp
next
  case (Cons m msgs)
  obtain r1 where step: "parse_message result m = Inr r1"
    using Cons.prems by (cases "parse_message result m") simp_all
  then have rest: "parse_messages msgs r1 = Inr res" using Cons.prems by simp
  obtain new where new: "tool_calls res = tool_calls r1 @ new"
      "list_all2 entry_of new (filter names_tool msgs)"
    using Cons.IH [OF rest] by blast
  show ?case
  proof (cases "names_tool m")
    case True
    then obtain tc where tc: "entry_of tc m" "tool_calls r1 = tool_calls result @ [tc]"
      using parse_message_tool_calls [OF step] by blast
    have "tool_calls res = tool_calls result @ (tc # new)" using new(1) tc(2) by simp
    moreover have "list_all2 entry_of (tc # new) (filter names_tool (m # msgs))"
      using True tc(1) new(2) by simp
    ultimately show ?thesis by blast
  next
    case False
    then have "tool_calls r1 = tool_calls result"
      using parse_message_tool_calls [OF step] by blast
    then have "tool_calls res = tool_calls result @ new" using new(1) by simp
    moreover have "list_all2 entry_of new (filter names_tool (m # msgs))"
      using False new(2) by simp
    ultimately show ?thesis by blast
  qed
qed

text \<open>
  C5, as the code has it. When \<open>parse\<close> returns, its \<open>tool_calls\<close> are, in message order,
  one entry for each decoded message that has a non-empty recipient and is on the
  commentary channel or has \<open>functions.\<close> in its recipient: the name is the recipient
  with \<open>functions.\<close> removed, the arguments are the first content text. No other
  message adds an entry.
\<close>

theorem parse_tool_calls:
  assumes "encode H (fst (truncate_at_marker text)) = Inr tokens"
    and "parse_messages_from_completion_tokens H tokens = Inr msgs"
    and "parse H self text = (Inr res, self')"
  shows "list_all2 entry_of (tool_calls res) (filter names_tool msgs)"
proof -
  have "parse_messages msgs \<lparr>content = None, tool_calls = [], reasoning_content = None\<rparr>
      = Inr res"
    using assms by (simp add: parse_def Let_def)
  from parse_messages_tool_calls [OF this] show ?thesis by simp
qed

theorem parse_tool_calls_witness:
  "encode demo (fst (truncate_at_marker ''ATC'')) = Inr ''ATC''
   \<and> parse_messages_from_completion_tokens demo ''ATC''
       = Inr [\<lparr>channel = Some ANALYSIS, recipient = None, content_texts = [''thinking'']\<rparr>,
              \<lparr>channel = Some COMMENTARY, recipient = Some ''functions.get_weather'',
               content_texts = [''{}'']\<rparr>,
              \<lparr>channel = Some COMMENTARY, recipient = None,
               content_texts = [''one moment'']\<rparr>]
   \<and> parse demo (init demo) ''ATC''
       = (Inr \<lparr>content = None,
               tool_calls = [\<lparr>name = ''get_weather'', arguments = ''{}''\<rparr>],
               reasoning_content = Some ''thinking''\<rparr>, init demo)
   \<and> list_all2 entry_of
        (tool_calls \<lparr>content = None,
               tool_calls = [\<lparr>name = ''get_weather'', arguments = ''{}''\<rparr>],
               reasoning_content = Some ''thinking''\<rparr>)
        (filter names_tool
           [\<lparr>channel = Some ANALYSIS, recipient = None, content_texts = [''thinking'']\<rparr>,
            \<lparr>channel = Some COMMENTARY, recipient = Some ''functions.get_weather'',
             content_texts = [''{}'']\<rparr>,
            \<lparr>channel = Some COMMENTARY, recipient = None,
             content_texts = [''one moment'']\<rparr>])"
proof -
  have h1: "encode demo (fst (truncate_at_marker ''ATC'')) = Inr ''ATC''" by code_simp
  have h2: "parse_messages_from_completion_tokens demo ''ATC''
       = Inr [\<lparr>channel = Some ANALYSIS, recipient = None, content_texts = [''thinking'']\<rparr>,
              \<lparr>channel = Some COMMENTARY, recipient = Some ''functions.get_weather'',
               content_texts = [''{}'']\<rparr>,
              \<lparr>channel = Some COMMENTARY, recipient = None,
               content_texts = [''one moment'']\<rparr>]"
    by code_simp
  have h3: "parse demo (init demo) ''ATC''
       = (Inr \<lparr>content = None,
               tool_calls = [\<lparr>name = ''get_weather'', arguments = ''{}''\<rparr>],
               reasoning_content = Some ''thinking''\<rparr>, init demo)"
    by code_simp
  show ?thesis
    using h1 h2 h3 parse_tool_calls [OF h1 h2 h3]
    by (intro conjI) assumption+
qed

text \<open>
  C5 as stated also counts a commentary message whose recipient is absent or empty.
  The guard \<open>is_tool_call and recipient\<close> leaves it out, and being neither analysis nor
  final it is dropped: the text \<open>C\<close> decodes to one such message and yields no tool
  call.
\<close>

theorem commentary_without_recipient_counterexample:
  "parse_messages_from_completion_tokens demo ''C''
     = Inr [\<lparr>channel = Some COMMENTARY, recipient = None,
             content_texts = [''one moment'']\<rparr>]
   \<and> fst (parse demo (init demo) ''C'')
     = Inr \<lparr>content = None, tool_calls = [], reasoning_content = None\<rparr>"
  by code_simp

end
